theory Spec2Isabelle
  imports Complex_Main "HOL-Library.List_Lexorder" "HOL-Library.Char_ord"
begin

section \<open>Python text\<close>

text \<open>
  A Python \<^verbatim>\<open>str\<close> is modelled as a \<^typ>\<open>string\<close>, one \<^typ>\<open>char\<close> per code point
  below 256. On that range \<^verbatim>\<open>str.isspace\<close> holds of the twelve code points listed
  below, the regular expression class \<^verbatim>\<open>\d\<close> holds of \<^verbatim>\<open>0\<close> to \<^verbatim>\<open>9\<close> only, and SQLite
  folds the case of the letters \<^verbatim>\<open>A\<close> to \<^verbatim>\<open>Z\<close> only. \<^verbatim>\<open>str.upper\<close> is modelled on
  the ASCII letters; other characters are left as they are.
\<close>

definition isspace :: "char \<Rightarrow> bool" where
  "isspace c = (of_char c \<in> {9, 10, 11, 12, 13, 28, 29, 30, 31, 32, 133, 160 :: nat})"

definition strip :: "string \<Rightarrow> string" where
  "strip s = rev (dropWhile isspace (rev (dropWhile isspace s)))"

definition upper_char :: "char \<Rightarrow> char" where
  "upper_char c = (if 97 \<le> (of_char c :: nat) \<and> (of_char c :: nat) \<le> 122
                   then char_of (of_char c - (32 :: nat)) else c)"

definition lower_char :: "char \<Rightarrow> char" where
  "lower_char c = (if 65 \<le> (of_char c :: nat) \<and> (of_char c :: nat) \<le> 90
                   then char_of (of_char c + (32 :: nat)) else c)"

definition upper :: "string \<Rightarrow> string" where
  "upper s = map upper_char s"

section \<open>Regular expressions of the validator\<close>

text \<open>
  The two patterns of \<^verbatim>\<open>app.py\<close> are written in a small syntax tree and run by a
  backtracking matcher, as \<^verbatim>\<open>re.match\<close> runs them: from the start of the text, with
  \<^verbatim>\<open>^\<close> holding at position 0 and \<^verbatim>\<open>$\<close> holding at the end of the text and also just
  before a newline that ends the text. A matcher state is the number of characters
  consumed and the rest of the text.
\<close>

datatype rx =
    Eps
  | Chars "(char \<times> char) list"
  | Seq rx rx
  | Opt rx
  | Bol
  | Eol

fun in_ranges :: "(char \<times> char) list \<Rightarrow> char \<Rightarrow> bool" where
  "in_ranges [] c = False"
| "in_ranges ((lo, hi) # rs) c = ((lo \<le> c \<and> c \<le> hi) \<or> in_ranges rs c)"

fun rx_step :: "rx \<Rightarrow> nat \<times> string \<Rightarrow> (nat \<times> string) list" where
  "rx_step Eps st = [st]"
| "rx_step (Chars rs) (n, []) = []"
| "rx_step (Chars rs) (n, c # cs) = (if in_ranges rs c then [(Suc n, cs)] else [])"
| "rx_step (Seq a b) st = concat (map (rx_step b) (rx_step a st))"
| "rx_step (Opt a) st = rx_step a st @ [st]"
| "rx_step Bol (n, s) = (if n = 0 then [(n, s)] else [])"
| "rx_step Eol (n, s) = (if s = [] \<or> s = [CHR 0x0A] then [(n, s)] else [])"

fun times :: "nat \<Rightarrow> rx \<Rightarrow> rx" where
  "times 0 r = Eps"
| "times (Suc k) r = Seq r (times k r)"

definition re_match :: "rx \<Rightarrow> string \<Rightarrow> bool" where
  "re_match r s = (rx_step r (0, s) \<noteq> [])"

definition letter :: rx where
  "letter = Chars [(CHR ''A'', CHR ''Z''), (CHR ''a'', CHR ''z'')]"

definition digit :: rx where
  "digit = Chars [(CHR ''0'', CHR ''9'')]"

definition STATE_RE :: rx where
  "STATE_RE = Seq Bol (Seq (times 2 letter) Eol)"

definition ZIP_RE :: rx where
  "ZIP_RE = Seq Bol (Seq (times 5 digit)
              (Seq (Opt (Seq (Chars [(CHR ''-'', CHR ''-'')]) (times 4 digit))) Eol))"

section \<open>Records and validation\<close>

record customer_fields =
  last_name :: string
  first_name :: string
  street :: string
  city :: string
  state :: string
  zip_code :: string
  loan_amount :: real
  estimated_value :: real
  occupancy_type :: string

definition MSG_STATE :: string where
  "MSG_STATE = ''State must be a 2-letter code (e.g., AZ, CA).''"

definition MSG_ZIP :: string where
  "MSG_ZIP = ''Zip Code must be 5 digits or ZIP+4 (e.g., 85212 or 85212-1234).''"

definition MSG_LOAN :: string where
  "MSG_LOAN = ''Loan amount must be greater than 0.''"

definition MSG_VALUE :: string where
  "MSG_VALUE = ''Estimated value must be greater than 0.''"

definition validate_inputs :: "'a customer_fields_scheme \<Rightarrow> string option" where
  "validate_inputs d =
     (if \<not> re_match STATE_RE (state d) then Some MSG_STATE
      else if \<not> re_match ZIP_RE (zip_code d) then Some MSG_ZIP
      else if loan_amount d \<le> 0 then Some MSG_LOAN
      else if estimated_value d \<le> 0 then Some MSG_VALUE
      else None)"

section \<open>Storage\<close>

text \<open>
  A stored row is a customer record with the two columns the storage assigns. The
  column \<^verbatim>\<open>created_at\<close> is text, \<^verbatim>\<open>datetime('now')\<close> as SQLite renders it, and is
  compared as text. The columns of type \<^verbatim>\<open>REAL\<close> are modelled as real numbers.
  The database is the table in storage order and the largest row id ever given out,
  which SQLite keeps in \<^verbatim>\<open>sqlite_sequence\<close> for an \<^verbatim>\<open>AUTOINCREMENT\<close> key.
\<close>

record customer = customer_fields +
  cid :: int
  created_at :: string

record db =
  rows :: "customer list"
  seq :: int

datatype storage_error = DatabaseFull | IntegerOverflow

definition MAX_ROWID :: int where
  "MAX_ROWID = 9223372036854775807"

definition MIN_ROWID :: int where
  "MIN_ROWID = - 9223372036854775808"

text \<open>\<^verbatim>\<open>CREATE TABLE IF NOT EXISTS\<close>: a database file that has the table keeps it.\<close>

fun init_db :: "db option \<Rightarrow> db" where
  "init_db None = \<lparr>rows = [], seq = 0\<rparr>"
| "init_db (Some d) = d"

definition largest_rowid :: "db \<Rightarrow> int" where
  "largest_rowid d = foldr max (map cid (rows d)) (seq d)"

text \<open>
  \<^verbatim>\<open>insert_customer\<close>: the new row id is one more than the largest row id that ever
  existed in the table; when that is the largest 64-bit integer the insert fails. The
  second argument is the clock reading that \<^verbatim>\<open>DEFAULT (datetime('now'))\<close> stores.
\<close>

definition insert_customer :: "customer_fields \<Rightarrow> string \<Rightarrow> db \<Rightarrow> storage_error + db" where
  "insert_customer rec now d =
     (let m = largest_rowid d in
      if MAX_ROWID \<le> m then Inl DatabaseFull
      else Inr \<lparr>rows = rows d @
                  [\<lparr>last_name = last_name rec, first_name = first_name rec,
                    street = street rec, city = city rec, state = state rec,
                    zip_code = zip_code rec, loan_amount = loan_amount rec,
                    estimated_value = estimated_value rec,
                    occupancy_type = occupancy_type rec,
                    cid = m + 1, created_at = now\<rparr>],
                seq = m + 1\<rparr>)"

text \<open>
  \<^verbatim>\<open>delete_customer\<close>: a Python integer outside the 64-bit range cannot be bound to the
  statement (\<^verbatim>\<open>OverflowError\<close>); otherwise the rows with that id are removed.
\<close>

definition delete_customer :: "int \<Rightarrow> db \<Rightarrow> storage_error + db" where
  "delete_customer row_id d =
     (if row_id < MIN_ROWID \<or> MAX_ROWID < row_id then Inl IntegerOverflow
      else Inr (d\<lparr>rows := filter (\<lambda>r. cid r \<noteq> row_id) (rows d)\<rparr>))"

subsection \<open>The LIKE operator\<close>

text \<open>
  SQLite's \<^verbatim>\<open>LIKE\<close>, pattern first: \<^verbatim>\<open>%\<close> matches any run of characters, \<^verbatim>\<open>_\<close> matches
  any one character, any other character matches itself, the ASCII letters without
  regard to case. The queries of \<^verbatim>\<open>app.py\<close> give no \<^verbatim>\<open>ESCAPE\<close> character.
\<close>

fun like :: "string \<Rightarrow> string \<Rightarrow> bool" where
  "like [] [] = True"
| "like [] (c # cs) = False"
| "like (p # ps) [] = (p = CHR ''%'' \<and> like ps [])"
| "like (p # ps) (c # cs) =
     (if p = CHR ''%'' then like ps (c # cs) \<or> like (p # ps) cs
      else (p = CHR ''_'' \<or> lower_char p = lower_char c) \<and> like ps cs)"

subsection \<open>Listing with filters\<close>

definition precedes :: "customer \<Rightarrow> customer \<Rightarrow> bool" where
  "precedes a b =
     (created_at b < created_at a \<or> (created_at a = created_at b \<and> cid b < cid a))"

fun insert_row :: "customer \<Rightarrow> customer list \<Rightarrow> customer list" where
  "insert_row r [] = [r]"
| "insert_row r (x # xs) = (if precedes x r then x # insert_row r xs else r # x # xs)"

text \<open>\<^verbatim>\<open>ORDER BY created_at DESC, id DESC\<close>.\<close>

definition order_by :: "customer list \<Rightarrow> customer list" where
  "order_by rs = foldr insert_row rs []"

text \<open>
  A filters dictionary is an association list; \<^verbatim>\<open>filters.get(k)\<close> is \<^term>\<open>map_of\<close>, and a
  value counts as present when it is not the empty string. Each present filter adds
  one condition of the \<^verbatim>\<open>WHERE\<close> clause, and the conditions are joined by \<^verbatim>\<open>AND\<close>.
\<close>

definition present :: "(string \<times> string) list \<Rightarrow> string \<Rightarrow> bool" where
  "present fs k = (case map_of fs k of None \<Rightarrow> False | Some v \<Rightarrow> v \<noteq> [])"

definition where_clause :: "(string \<times> string) list option \<Rightarrow> (customer \<Rightarrow> bool) list" where
  "where_clause filters =
     (case filters of
        None \<Rightarrow> []
      | Some fs \<Rightarrow>
          if fs = [] then []
          else
            (if present fs ''name''
             then [\<lambda>r. like (''%'' @ the (map_of fs ''name'') @ ''%'') (last_name r) \<or>
                        like (''%'' @ the (map_of fs ''name'') @ ''%'') (first_name r)]
             else []) @
            (if present fs ''city''
             then [\<lambda>r. like (''%'' @ the (map_of fs ''city'') @ ''%'') (city r)]
             else []) @
            (if present fs ''state''
             then [\<lambda>r. state r = strip (upper (the (map_of fs ''state'')))]
             else []))"

definition fetch_customers :: "(string \<times> string) list option \<Rightarrow> db \<Rightarrow> customer list" where
  "fetch_customers filters d =
     order_by (filter (\<lambda>r. list_all (\<lambda>cond. cond r) (where_clause filters)) (rows d))"

section \<open>Top metrics\<close>

text \<open>
  The quotient of two columns is a float that may be infinite or not a number when the
  divisor is zero, so the ratios are values of \<open>fnum\<close>. \<^verbatim>\<open>clip(upper=5)\<close> lowers what
  is above 5 and keeps a missing value; \<^verbatim>\<open>mean()\<close> skips missing values.
\<close>

datatype fnum = Fin real | PosInf | NegInf | NaN

definition fdiv :: "real \<Rightarrow> real \<Rightarrow> fnum" where
  "fdiv a b = (if b \<noteq> 0 then Fin (a / b)
               else if 0 < a then PosInf else if a < 0 then NegInf else NaN)"

fun clip_upper :: "real \<Rightarrow> fnum \<Rightarrow> fnum" where
  "clip_upper u (Fin x) = Fin (if u < x then u else x)"
| "clip_upper u PosInf = Fin u"
| "clip_upper u NegInf = NegInf"
| "clip_upper u NaN = NaN"

fun fin_values :: "fnum list \<Rightarrow> real list" where
  "fin_values [] = []"
| "fin_values (Fin x # xs) = x # fin_values xs"
| "fin_values (y # xs) = fin_values xs"

definition mean :: "fnum list \<Rightarrow> fnum" where
  "mean xs =
     (let ys = filter (\<lambda>x. x \<noteq> NaN) xs in
      if ys = [] then NaN
      else if PosInf \<in> set ys \<and> NegInf \<in> set ys then NaN
      else if PosInf \<in> set ys then PosInf
      else if NegInf \<in> set ys then NegInf
      else Fin (sum_list (fin_values ys) / real (length ys)))"

fun fscale :: "fnum \<Rightarrow> real \<Rightarrow> fnum" where
  "fscale (Fin x) k = Fin (x * k)"
| "fscale PosInf k = (if 0 < k then PosInf else if k < 0 then NegInf else NaN)"
| "fscale NegInf k = (if 0 < k then NegInf else if k < 0 then PosInf else NaN)"
| "fscale NaN k = NaN"

record metrics =
  total_customers :: nat
  total_loan :: real
  avg_ltv :: "fnum option"

definition summarize :: "customer list \<Rightarrow> metrics" where
  "summarize df_all =
     \<lparr>total_customers = length df_all,
      total_loan = (if length df_all \<noteq> 0 then sum_list (map loan_amount df_all) else 0),
      avg_ltv = (if length df_all \<noteq> 0
                 then Some (fscale (mean (map (\<lambda>r. clip_upper 5
                                (fdiv (loan_amount r) (estimated_value r))) df_all)) 100)
                 else None)\<rparr>"

definition top_metrics :: "db \<Rightarrow> metrics" where
  "top_metrics d = summarize (fetch_customers None d)"

section \<open>The form and the delete button\<close>

datatype outcome = Rejected string | Added | Deleted int | Failed storage_error




text \<open>
  The delete button of the dashboard: \<^verbatim>\<open>did\<close> is the row id selected in the box, and
  the call is \<^verbatim>\<open>delete_customer(int())\<close>, where \<^verbatim>\<open>int()\<close> is 0.
\<close>

definition delete_selected_row :: "int \<Rightarrow> db \<Rightarrow> outcome \<times> db" where
  "delete_selected_row did d =
     (case delete_customer 0 d of
        Inl e \<Rightarrow> (Failed e, d) | Inr d' \<Rightarrow> (Deleted did, d'))"

section \<open>Notions of the specification\<close>

text \<open>
  The specification speaks of a filter string that is contained in a field as a
  substring, without regard to case. \<open>starts_with_ci\<close> and \<open>contains_ci\<close> say
  that, the filter string first; \<open>plain\<close> holds of a filter string with neither of the
  two characters that \<^verbatim>\<open>LIKE\<close> reads as wildcards.
\<close>

fun starts_with_ci :: "string \<Rightarrow> string \<Rightarrow> bool" where
  "starts_with_ci [] s = True"
| "starts_with_ci (p # ps) [] = False"
| "starts_with_ci (p # ps) (c # cs) = (lower_char p = lower_char c \<and> starts_with_ci ps cs)"

fun contains_ci :: "string \<Rightarrow> string \<Rightarrow> bool" where
  "contains_ci f [] = starts_with_ci f []"
| "contains_ci f (c # cs) = (starts_with_ci f (c # cs) \<or> contains_ci f cs)"


section \<open>Example data\<close>

definition doe :: customer where
  "doe = \<lparr>last_name = ''Doe'', first_name = ''Jane'', street = ''123 Main St'',
           city = ''Phoenix'', state = ''AZ'', zip_code = ''85212'',
           loan_amount = 125000, estimated_value = 250000,
           occupancy_type = ''Primary Residence'',
           cid = 1, created_at = ''2026-01-01 09:00:00''\<rparr>"

definition roe :: customer where
  "roe = \<lparr>last_name = ''Roe'', first_name = ''Rick'', street = ''9 Elm Rd'',
           city = ''Fresno'', state = ''CA'', zip_code = ''93650-0001'',
           loan_amount = 400000, estimated_value = 50000,
           occupancy_type = ''Investment'',
           cid = 2, created_at = ''2026-01-01 09:00:00''\<rparr>"

definition pipeline :: db where
  "pipeline = \<lparr>rows = [doe, roe], seq = 2\<rparr>"

definition jane_form :: customer_fields where
  "jane_form = \<lparr>last_name = '' Doe'', first_name = ''Jane '', street = ''123 Main St'',
                 city = ''Phoenix'', state = ''az'', zip_code = ''85212'',
                 loan_amount = 200000, estimated_value = 250000,
                 occupancy_type = ''Primary Residence''\<rparr>"

section \<open>Sequences of operations\<close>

text \<open>
  A sequence of calls of \<^verbatim>\<open>insert_customer\<close> and \<^verbatim>\<open>delete_customer\<close>, each with its
  arguments, run from a database. A call that fails leaves the database as it was. The
  result lists the ids given to the rows that were created, oldest first. \<open>seq_ok\<close>
  is the invariant that SQLite keeps between its sequence table and the rows.
\<close>


datatype op = Create customer_fields string | Delete int

fun run :: "op list \<Rightarrow> db \<Rightarrow> int list" where
  "run [] d = []"
| "run (Create rec now # ops) d =
     (case insert_customer rec now d of
        Inl e \<Rightarrow> run ops d
      | Inr d' \<Rightarrow> cid (last (rows d')) # run ops d')"
| "run (Delete row_id # ops) d =
     (case delete_customer row_id d of
        Inl e \<Rightarrow> run ops d
      | Inr d' \<Rightarrow> run ops d')"

definition seq_ok :: "db \<Rightarrow> bool" where
  "seq_ok d = list_all (\<lambda>r. cid r \<le> seq d) (rows d)"




section \<open>The second implementation\<close>

text \<open>
  \<^verbatim>\<open>main.py\<close> keeps a table \<^verbatim>\<open>users\<close> with the columns \<^verbatim>\<open>id\<close>, \<^verbatim>\<open>name\<close> and \<^verbatim>\<open>age\<close>. Its
  functions hand a statement text and a parameters object to \<^verbatim>\<open>cursor.execute\<close>, which
  compiles the text, then takes the parameters as a sequence, checks their number and
  binds them, then runs the statement. The statements are read by a tokenizer and a
  parser for the two forms that \<^verbatim>\<open>main.py\<close> uses,
  \<^verbatim>\<open>UPDATE t SET c = ? {, c = ?} [WHERE c = ?]\<close> and \<^verbatim>\<open>DELETE FROM t [WHERE c = ?]\<close>.
  Conversions of stored values by column affinity are left out.
\<close>

datatype pyval = PInt int | PStr string | PTuple "pyval list"

datatype sqlval = SInt int | SText string

datatype sql_error =
    SyntaxError string
  | IncompleteInput
  | NoSuchTable string
  | NoSuchColumn string
  | DatatypeMismatch
  | ConstraintFailed
  | UnsupportedParameters
  | IncorrectBindings nat nat
  | UnsupportedType nat
  | IntTooLarge

record user =
  uid :: int
  uname :: sqlval
  uage :: sqlval

datatype token = Word string | Question | Equals | Comma | Other char

definition word_char :: "char \<Rightarrow> bool" where
  "word_char c = in_ranges [(CHR ''A'', CHR ''Z''), (CHR ''a'', CHR ''z''),
                            (CHR ''0'', CHR ''9''), (CHR ''_'', CHR ''_'')] c"

definition flush :: "string \<Rightarrow> token list" where
  "flush w = (if w = [] then [] else [Word w])"

definition punct :: "char \<Rightarrow> token list" where
  "punct c = (if isspace c then []
              else if c = CHR ''?'' then [Question]
              else if c = CHR ''='' then [Equals]
              else if c = CHR '','' then [Comma]
              else [Other c])"

fun scan :: "string \<Rightarrow> string \<Rightarrow> token list" where
  "scan w [] = flush w"
| "scan w (c # cs) =
     (if word_char c then scan (w @ [c]) cs else flush w @ punct c @ scan [] cs)"

definition tokenize :: "string \<Rightarrow> token list" where
  "tokenize s = scan [] s"

definition reserved :: "string \<Rightarrow> bool" where
  "reserved w = (upper w \<in> set [''UPDATE'', ''SET'', ''WHERE'', ''DELETE'', ''FROM''])"

fun token_text :: "token \<Rightarrow> string" where
  "token_text (Word w) = w"
| "token_text Question = ''?''"
| "token_text Equals = ''=''"
| "token_text Comma = '',''"
| "token_text (Other c) = [c]"

text \<open>The error of a token list that should start with a token of a given kind.\<close>

definition unexpected :: "token list \<Rightarrow> sql_error" where
  "unexpected ts = (case ts of [] \<Rightarrow> IncompleteInput | t # _ \<Rightarrow> SyntaxError (token_text t))"

text \<open>A word at the head of the tokens, and the tokens after it.\<close>

definition expect_word :: "token list \<Rightarrow> sql_error + string \<times> token list" where
  "expect_word ts = (case ts of Word w # ts' \<Rightarrow> Inr (w, ts') | _ \<Rightarrow> Inl (unexpected ts))"

text \<open>\<open>c = ?\<close>: the column and the tokens after the placeholder.\<close>

definition parse_assignment :: "token list \<Rightarrow> sql_error + string \<times> token list" where
  "parse_assignment ts =
     (case expect_word ts of
        Inl e \<Rightarrow> Inl e
      | Inr (c, ts1) \<Rightarrow>
          if reserved c then Inl (SyntaxError c)
          else (case ts1 of
                  Equals # ts2 \<Rightarrow>
                    (case ts2 of
                       Question # ts3 \<Rightarrow> Inr (c, ts3)
                     | _ \<Rightarrow> Inl (unexpected ts2))
                | _ \<Rightarrow> Inl (unexpected ts1)))"

datatype stmt =
    Update string "string list" "string option"
  | Delete_From string "string option"

text \<open>\<open>[WHERE c = ?]\<close> to the end of the statement.\<close>

definition parse_where :: "token list \<Rightarrow> sql_error + string option" where
  "parse_where ts =
     (case ts of
        [] \<Rightarrow> Inr None
      | Word w # ts' \<Rightarrow>
          if upper w = ''WHERE''
          then (case parse_assignment ts' of
                  Inl e \<Rightarrow> Inl e
                | Inr (c, rest) \<Rightarrow> if rest = [] then Inr (Some c) else Inl (unexpected rest))
          else Inl (SyntaxError w)
      | t # _ \<Rightarrow> Inl (SyntaxError (token_text t)))"

text \<open>
  \<open>c = ? {, c = ?}\<close>: the columns and the tokens that follow the list. The first
  argument bounds the number of assignments by the number of tokens.
\<close>

fun parse_setlist :: "nat \<Rightarrow> token list \<Rightarrow> sql_error + string list \<times> token list" where
  "parse_setlist 0 ts = Inl IncompleteInput"
| "parse_setlist (Suc n) ts =
     (case parse_assignment ts of
        Inl e \<Rightarrow> Inl e
      | Inr (c, rest) \<Rightarrow>
          (case rest of
             Comma # rest' \<Rightarrow>
               (case parse_setlist n rest' of
                  Inl e \<Rightarrow> Inl e
                | Inr (cs, rest'') \<Rightarrow> Inr (c # cs, rest''))
           | _ \<Rightarrow> Inr ([c], rest)))"

definition parse_update :: "token list \<Rightarrow> sql_error + stmt" where
  "parse_update ts =
     (case expect_word ts of
        Inl e \<Rightarrow> Inl e
      | Inr (t, ts1) \<Rightarrow>
          if reserved t then Inl (SyntaxError t)
          else (case expect_word ts1 of
                  Inl e \<Rightarrow> Inl e
                | Inr (s, ts2) \<Rightarrow>
                    if upper s \<noteq> ''SET'' then Inl (SyntaxError s)
                    else (case parse_setlist (length ts2) ts2 of
                            Inl e \<Rightarrow> Inl e
                          | Inr (cs, rest) \<Rightarrow>
                              (case parse_where rest of
                                 Inl e \<Rightarrow> Inl e
                               | Inr w \<Rightarrow> Inr (Update t cs w)))))"

definition parse_delete :: "token list \<Rightarrow> sql_error + stmt" where
  "parse_delete ts =
     (case expect_word ts of
        Inl e \<Rightarrow> Inl e
      | Inr (f, ts1) \<Rightarrow>
          if upper f \<noteq> ''FROM'' then Inl (SyntaxError f)
          else (case expect_word ts1 of
                  Inl e \<Rightarrow> Inl e
                | Inr (t, ts2) \<Rightarrow>
                    if reserved t then Inl (SyntaxError t)
                    else (case parse_where ts2 of
                            Inl e \<Rightarrow> Inl e
                          | Inr w \<Rightarrow> Inr (Delete_From t w))))"

definition parse_stmt :: "token list \<Rightarrow> sql_error + stmt" where
  "parse_stmt ts =
     (case expect_word ts of
        Inl e \<Rightarrow> Inl e
      | Inr (w, ts1) \<Rightarrow>
          if upper w = ''UPDATE'' then parse_update ts1
          else if upper w = ''DELETE'' then parse_delete ts1
          else Inl (SyntaxError w))"

text \<open>
  Names are resolved when the statement is compiled; they are compared without regard
  to case.
\<close>

definition known_column :: "string \<Rightarrow> bool" where
  "known_column c = (upper c \<in> set [''ID'', ''NAME'', ''AGE''])"

definition resolve :: "stmt \<Rightarrow> sql_error option" where
  "resolve st =
     (case st of
        Update t cs w \<Rightarrow>
          if upper t \<noteq> ''USERS'' then Some (NoSuchTable t)
          else (case filter (\<lambda>c. \<not> known_column c) (cs @ (case w of None \<Rightarrow> [] | Some c \<Rightarrow> [c])) of
                  [] \<Rightarrow> None
                | c # _ \<Rightarrow> Some (NoSuchColumn c))
      | Delete_From t w \<Rightarrow>
          if upper t \<noteq> ''USERS'' then Some (NoSuchTable t)
          else (case filter (\<lambda>c. \<not> known_column c) (case w of None \<Rightarrow> [] | Some c \<Rightarrow> [c]) of
                  [] \<Rightarrow> None
                | c # _ \<Rightarrow> Some (NoSuchColumn c)))"

definition prepare :: "string \<Rightarrow> sql_error + stmt" where
  "prepare sql =
     (case parse_stmt (tokenize sql) of
        Inl e \<Rightarrow> Inl e
      | Inr st \<Rightarrow> (case resolve st of Some e \<Rightarrow> Inl e | None \<Rightarrow> Inr st))"

definition placeholders :: "stmt \<Rightarrow> nat" where
  "placeholders st =
     (case st of
        Update t cs w \<Rightarrow> length cs + (case w of None \<Rightarrow> 0 | Some c \<Rightarrow> 1)
      | Delete_From t w \<Rightarrow> (case w of None \<Rightarrow> 0 | Some c \<Rightarrow> 1))"

text \<open>
  The parameters object as a sequence: a tuple is the sequence of its items, a string the
  sequence of its characters, an integer is no sequence.
\<close>

fun sequence_of :: "pyval \<Rightarrow> pyval list option" where
  "sequence_of (PTuple vs) = Some vs"
| "sequence_of (PStr s) = Some (map (\<lambda>c. PStr [c]) s)"
| "sequence_of (PInt n) = None"

fun bind_value :: "nat \<Rightarrow> pyval \<Rightarrow> sql_error + sqlval" where
  "bind_value i (PInt n) =
     (if n < MIN_ROWID \<or> MAX_ROWID < n then Inl IntTooLarge else Inr (SInt n))"
| "bind_value i (PStr s) = Inr (SText s)"
| "bind_value i (PTuple vs) = Inl (UnsupportedType i)"

fun bind_all :: "nat \<Rightarrow> pyval list \<Rightarrow> sql_error + sqlval list" where
  "bind_all i [] = Inr []"
| "bind_all i (v # vs) =
     (case bind_value i v of
        Inl e \<Rightarrow> Inl e
      | Inr x \<Rightarrow> (case bind_all (Suc i) vs of Inl e \<Rightarrow> Inl e | Inr xs \<Rightarrow> Inr (x # xs)))"

text \<open>
  A text of decimal digits, with an optional sign, as the integer that a comparison
  with an integer column makes of it.
\<close>

definition digits_value :: "string \<Rightarrow> int option" where
  "digits_value s =
     (if s \<noteq> [] \<and> list_all (in_ranges [(CHR ''0'', CHR ''9'')]) s
      then Some (foldl (\<lambda>n c. 10 * n + (int (of_char c) - 48)) 0 s)
      else None)"

definition text_as_integer :: "string \<Rightarrow> int option" where
  "text_as_integer s =
     (case s of
        [] \<Rightarrow> None
      | c # cs \<Rightarrow>
          if c = CHR ''-'' then map_option uminus (digits_value cs)
          else if c = CHR ''+'' then digits_value cs
          else digits_value s)"

definition column_value :: "string \<Rightarrow> user \<Rightarrow> sqlval" where
  "column_value c u =
     (if upper c = ''ID'' then SInt (uid u)
      else if upper c = ''NAME'' then uname u
      else uage u)"

fun sql_eq :: "sqlval \<Rightarrow> sqlval \<Rightarrow> bool" where
  "sql_eq (SInt a) (SInt b) = (a = b)"
| "sql_eq (SText a) (SText b) = (a = b)"
| "sql_eq (SInt a) (SText b) = (text_as_integer b = Some a)"
| "sql_eq (SText a) (SInt b) = False"

definition set_column :: "string \<Rightarrow> sqlval \<Rightarrow> user \<Rightarrow> sql_error + user" where
  "set_column c v u =
     (if upper c = ''ID'' then
        (case v of
           SInt n \<Rightarrow> Inr (u\<lparr>uid := n\<rparr>)
         | SText s \<Rightarrow>
             (case text_as_integer s of
                None \<Rightarrow> Inl DatatypeMismatch
              | Some n \<Rightarrow> Inr (u\<lparr>uid := n\<rparr>)))
      else if upper c = ''NAME'' then Inr (u\<lparr>uname := v\<rparr>)
      else Inr (u\<lparr>uage := v\<rparr>))"

fun set_columns :: "string list \<Rightarrow> sqlval list \<Rightarrow> user \<Rightarrow> sql_error + user" where
  "set_columns (c # cs) (v # vs) u =
     (case set_column c v u of Inl e \<Rightarrow> Inl e | Inr u' \<Rightarrow> set_columns cs vs u')"
| "set_columns cs vs u = Inr u"

definition selected_by :: "string option \<Rightarrow> sqlval list \<Rightarrow> user \<Rightarrow> bool" where
  "selected_by w vs u =
     (case w of
        None \<Rightarrow> True
      | Some c \<Rightarrow> (case vs of [] \<Rightarrow> False | v # _ \<Rightarrow> sql_eq (column_value c u) v))"

fun update_rows ::
  "string list \<Rightarrow> string option \<Rightarrow> sqlval list \<Rightarrow> user list \<Rightarrow> sql_error + user list" where
  "update_rows cs w vs [] = Inr []"
| "update_rows cs w vs (u # us) =
     (case (if selected_by w (drop (length cs) vs) u then set_columns cs vs u else Inr u) of
        Inl e \<Rightarrow> Inl e
      | Inr u' \<Rightarrow>
          (case update_rows cs w vs us of Inl e \<Rightarrow> Inl e | Inr us' \<Rightarrow> Inr (u' # us')))"

definition run_stmt :: "stmt \<Rightarrow> sqlval list \<Rightarrow> user list \<Rightarrow> sql_error + user list" where
  "run_stmt st vs us =
     (case st of
        Update t cs w \<Rightarrow>
          (case update_rows cs w vs us of
             Inl e \<Rightarrow> Inl e
           | Inr us' \<Rightarrow> if distinct (map uid us') then Inr us' else Inl ConstraintFailed)
      | Delete_From t w \<Rightarrow> Inr (filter (\<lambda>u. \<not> selected_by w vs u) us))"

definition execute :: "string \<Rightarrow> pyval \<Rightarrow> user list \<Rightarrow> sql_error + user list" where
  "execute sql parameters us =
     (case prepare sql of
        Inl e \<Rightarrow> Inl e
      | Inr st \<Rightarrow>
          (case sequence_of parameters of
             None \<Rightarrow> Inl UnsupportedParameters
           | Some vs \<Rightarrow>
               if length vs \<noteq> placeholders st
               then Inl (IncorrectBindings (placeholders st) (length vs))
               else (case bind_all 0 vs of
                       Inl e \<Rightarrow> Inl e
                     | Inr xs \<Rightarrow> run_stmt st xs us)))"

text \<open>
  \<^verbatim>\<open>update_user\<close> and \<^verbatim>\<open>delete_user\<close>: the result is the exception raised, if any, and
  the table after the call. \<^verbatim>\<open>commit\<close> comes after \<^verbatim>\<open>execute\<close>, so an exception leaves the
  table as it was. In \<^verbatim>\<open>delete_user\<close> the parameters object is \<^verbatim>\<open>(id)\<close>, which is
  \<^verbatim>\<open>id\<close> itself. The argument \<^verbatim>\<open>id\<close> is written \<open>uid'\<close>.
\<close>

definition UPDATE_SQL :: string where
  "UPDATE_SQL = ''UPDATE users SET name = ?, age = ?, WHERE id = ?''"

definition DELETE_SQL :: string where
  "DELETE_SQL = ''DELETE FROM users WHERE id = ?''"

definition update_user :: "pyval \<Rightarrow> pyval \<Rightarrow> pyval \<Rightarrow> user list \<Rightarrow> sql_error option \<times> user list" where
  "update_user uid' name age us =
     (case execute UPDATE_SQL (PTuple [name, age, uid']) us of
        Inl e \<Rightarrow> (Some e, us)
      | Inr us' \<Rightarrow> (None, us'))"

definition delete_user :: "pyval \<Rightarrow> user list \<Rightarrow> sql_error option \<times> user list" where
  "delete_user uid' us =
     (case execute DELETE_SQL uid' us of
        Inl e \<Rightarrow> (Some e, us)
      | Inr us' \<Rightarrow> (None, us'))"

definition ann :: user where
  "ann = \<lparr>uid = 5, uname = SText ''Ann'', uage = SInt 41\<rparr>"

text \<open>
  A zip code as the specification describes it: five digits, optionally followed by a
  hyphen and four more digits.
\<close>

definition is_digit :: "char \<Rightarrow> bool" where
  "is_digit c = in_ranges [(CHR ''0'', CHR ''9'')] c"

definition well_formed_zip :: "string \<Rightarrow> bool" where
  "well_formed_zip z =
     ((length z = 5 \<and> list_all is_digit z) \<or>
      (length z = 10 \<and> list_all is_digit (take 5 z) \<and> z ! 5 = CHR ''-'' \<and>
       list_all is_digit (drop 6 z)))"

section \<open>Properties of the validator\<close>

lemma STATE_RE_iff:
  "re_match STATE_RE s \<longleftrightarrow>
     (\<exists>a b. in_ranges [(CHR ''A'', CHR ''Z''), (CHR ''a'', CHR ''z'')] a \<and>
            in_ranges [(CHR ''A'', CHR ''Z''), (CHR ''a'', CHR ''z'')] b \<and>
            (s = [a, b] \<or> s = [a, b, CHR 0x0A]))"
proof (cases s)
  case Nil
  then show ?thesis
    by (simp add: re_match_def STATE_RE_def letter_def numeral_2_eq_2)
next
  case (Cons a s1)
  note outer = Cons
  show ?thesis
  proof (cases s1)
    case Nil
    with outer show ?thesis
      by (simp add: re_match_def STATE_RE_def letter_def numeral_2_eq_2)
  next
    case (Cons b s2)
    with outer show ?thesis
      by (auto simp add: re_match_def STATE_RE_def letter_def numeral_2_eq_2
          simp del: in_ranges.simps)
  qed
qed




section \<open>Properties of LIKE\<close>


lemma like_percent_all: "like ''%'' s"
  by (induction s) auto

lemma like_percent_skip: "like ps s \<Longrightarrow> like (CHR ''%'' # ps) s"
  by (cases s) auto

lemma like_percent_iff:
  "like (CHR ''%'' # ps) s \<longleftrightarrow> (\<exists>pre post. s = pre @ post \<and> like ps post)"
proof (induction s)
  case Nil
  then show ?case by auto
next
  case (Cons c cs)
  show ?case
  proof
    assume "like (CHR ''%'' # ps) (c # cs)"
    then consider "like ps (c # cs)" | "like (CHR ''%'' # ps) cs" by auto
    then show "\<exists>pre post. c # cs = pre @ post \<and> like ps post"
    proof cases
      case 1
      then have "c # cs = [] @ (c # cs) \<and> like ps (c # cs)" by simp
      then show ?thesis by blast
    next
      case 2
      with Cons.IH obtain pre post where "cs = pre @ post" "like ps post" by blast
      then have "c # cs = (c # pre) @ post \<and> like ps post" by simp
      then show ?thesis by blast
    qed
  next
    assume "\<exists>pre post. c # cs = pre @ post \<and> like ps post"
    then obtain pre post where pp: "c # cs = pre @ post" "like ps post" by blast
    show "like (CHR ''%'' # ps) (c # cs)"
    proof (cases pre)
      case Nil
      with pp show ?thesis by auto
    next
      case (Cons a pre')
      with pp have "cs = pre' @ post" by simp
      with pp(2) Cons.IH have "like (CHR ''%'' # ps) cs" by blast
      then show ?thesis by simp
    qed
  qed
qed


lemma starts_with_ci_iff:
  "starts_with_ci f s \<longleftrightarrow> (\<exists>a b. s = a @ b \<and> map lower_char a = map lower_char f)"
proof (induction f s rule: starts_with_ci.induct)
  case (1 s)
  then show ?case by simp
next
  case (2 p ps)
  then show ?case by simp
next
  case (3 p ps c cs)
  show ?case
  proof
    assume "starts_with_ci (p # ps) (c # cs)"
    with 3 obtain a b where "lower_char p = lower_char c" "cs = a @ b"
      "map lower_char a = map lower_char ps" by auto
    then have "c # cs = (c # a) @ b \<and> map lower_char (c # a) = map lower_char (p # ps)"
      by simp
    then show "\<exists>a b. c # cs = a @ b \<and> map lower_char a = map lower_char (p # ps)"
      by blast
  next
    assume "\<exists>a b. c # cs = a @ b \<and> map lower_char a = map lower_char (p # ps)"
    then obtain a b where ab: "c # cs = a @ b" "map lower_char a = map lower_char (p # ps)"
      by blast
    then obtain a' where "a = c # a'" by (cases a) auto
    with ab 3 show "starts_with_ci (p # ps) (c # cs)" by auto
  qed
qed

lemma contains_ci_iff:
  "contains_ci f s \<longleftrightarrow> (\<exists>pre a post. s = pre @ a @ post \<and> map lower_char a = map lower_char f)"
proof (induction s)
  case Nil
  then show ?case by (auto simp add: starts_with_ci_iff)
next
  case (Cons c cs)
  show ?case
  proof
    assume "contains_ci f (c # cs)"
    then consider "starts_with_ci f (c # cs)" | "contains_ci f cs" by auto
    then show "\<exists>pre a post. c # cs = pre @ a @ post \<and> map lower_char a = map lower_char f"
    proof cases
      case 1
      then obtain a b where "c # cs = a @ b" "map lower_char a = map lower_char f"
        using starts_with_ci_iff by blast
      then have "c # cs = [] @ a @ b \<and> map lower_char a = map lower_char f" by simp
      then show ?thesis by blast
    next
      case 2
      with Cons.IH obtain pre a post where "cs = pre @ a @ post" "map lower_char a = map lower_char f"
        by blast
      then have "c # cs = (c # pre) @ a @ post \<and> map lower_char a = map lower_char f" by simp
      then show ?thesis by blast
    qed
  next
    assume "\<exists>pre a post. c # cs = pre @ a @ post \<and> map lower_char a = map lower_char f"
    then obtain pre a post where pap: "c # cs = pre @ a @ post" "map lower_char a = map lower_char f"
      by blast
    show "contains_ci f (c # cs)"
    proof (cases pre)
      case Nil
      with pap have "starts_with_ci f (c # cs)" using starts_with_ci_iff by auto
      then show ?thesis by simp
    next
      case (Cons x pre')
      with pap have "cs = pre' @ a @ post" by simp
      with pap(2) Cons.IH have "contains_ci f cs" by blast
      then show ?thesis by simp
    qed
  qed
qed

text \<open>The same as a statement about the two texts with their ASCII letters folded.\<close>

lemma contains_ci_sublist:
  "contains_ci f s \<longleftrightarrow> (\<exists>pre post. map lower_char s = pre @ map lower_char f @ post)"
proof
  assume "contains_ci f s"
  then obtain pre a post where "s = pre @ a @ post" "map lower_char a = map lower_char f"
    using contains_ci_iff by blast
  then have "map lower_char s = map lower_char pre @ map lower_char f @ map lower_char post"
    by simp
  then show "\<exists>pre post. map lower_char s = pre @ map lower_char f @ post" by blast
next
  assume "\<exists>pre post. map lower_char s = pre @ map lower_char f @ post"
  then obtain pre post where "map lower_char s = pre @ map lower_char f @ post" by blast
  then obtain x r where xr: "s = x @ r" "map lower_char r = map lower_char f @ post"
    using map_eq_append_conv [of lower_char s pre "map lower_char f @ post"] by auto
  then obtain y z where "r = y @ z" "map lower_char y = map lower_char f"
    using map_eq_append_conv [of lower_char r "map lower_char f" post] by auto
  with xr have "s = x @ y @ z" "map lower_char y = map lower_char f" by simp_all
  then show "contains_ci f s" using contains_ci_iff by blast
qed




section \<open>Properties of the ordering\<close>




lemma length_insert_row: "length (insert_row r xs) = Suc (length xs)"
  by (induction xs) auto

lemma length_order_by: "length (order_by rs) = length rs"
  unfolding order_by_def by (induction rs) (auto simp add: length_insert_row)



lemma sum_insert_row: "sum_list (map g (insert_row r xs)) = g r + sum_list (map g xs)"
  for g :: "customer \<Rightarrow> real"
  by (induction xs) auto

lemma sum_order_by: "sum_list (map g (order_by rs)) = sum_list (map g rs)"
  for g :: "customer \<Rightarrow> real"
  unfolding order_by_def by (induction rs) (auto simp add: sum_insert_row)








lemma like_trailing_percent:
  "like (ps @ ''%'') s \<longleftrightarrow> (\<exists>a b. s = a @ b \<and> like ps a)"
proof (induction ps s rule: like.induct)
  case 1
  then show ?case by simp
next
  case (2 c cs)
  have "like ''%'' (c # cs)" by (rule like_percent_all)
  moreover have "c # cs = [] @ (c # cs) \<and> like [] []" by simp
  then have "\<exists>a b. c # cs = a @ b \<and> like [] a" by blast
  ultimately show ?case by simp
next
  case (3 p ps)
  then show ?case by auto
next
  case (4 p ps c cs)
  show ?case
  proof (cases "p = CHR ''%''")
    case True
    have "like ((p # ps) @ ''%'') (c # cs) \<longleftrightarrow>
            like (ps @ ''%'') (c # cs) \<or> like ((p # ps) @ ''%'') cs"
      using True by simp
    also have "\<dots> \<longleftrightarrow> (\<exists>a b. c # cs = a @ b \<and> like ps a) \<or> (\<exists>a b. cs = a @ b \<and> like (p # ps) a)"
      using 4 True by simp
    also have "\<dots> \<longleftrightarrow> (\<exists>a b. c # cs = a @ b \<and> like (p # ps) a)" (is "?L \<longleftrightarrow> ?R")
    proof
      assume ?L
      then show ?R
      proof
        assume "\<exists>a b. c # cs = a @ b \<and> like ps a"
        then obtain a b where "c # cs = a @ b" "like ps a" by blast
        then have "c # cs = a @ b \<and> like (p # ps) a"
          using True like_percent_skip by simp
        then show ?R by blast
      next
        assume "\<exists>a b. cs = a @ b \<and> like (p # ps) a"
        then obtain a b where "cs = a @ b" "like (p # ps) a" by blast
        then have "c # cs = (c # a) @ b \<and> like (p # ps) (c # a)"
          using True by simp
        then show ?R by blast
      qed
    next
      assume ?R
      then obtain a b where ab: "c # cs = a @ b" "like (p # ps) a" by blast
      show ?L
      proof (cases a)
        case Nil
        with ab True have "c # cs = [] @ b \<and> like ps []" by simp
        then show ?thesis using Nil ab by blast
      next
        case (Cons x a')
        with ab have x: "x = c" "cs = a' @ b" by simp_all
        from ab Cons True have "like ps (c # a') \<or> like (p # ps) a'"
          using x by simp
        then show ?thesis
        proof
          assume "like ps (c # a')"
          then have "c # cs = (c # a') @ b \<and> like ps (c # a')" using x by simp
          then show ?thesis by blast
        next
          assume "like (p # ps) a'"
          then show ?thesis using x by blast
        qed
      qed
    qed
    finally show ?thesis .
  next
    case False
    have "like ((p # ps) @ ''%'') (c # cs) \<longleftrightarrow>
            (p = CHR ''_'' \<or> lower_char p = lower_char c) \<and> like (ps @ ''%'') cs"
      using False by simp
    also have "\<dots> \<longleftrightarrow> (p = CHR ''_'' \<or> lower_char p = lower_char c) \<and>
        (\<exists>a b. cs = a @ b \<and> like ps a)"
      using 4 False by simp
    also have "\<dots> \<longleftrightarrow> (\<exists>a b. c # cs = a @ b \<and> like (p # ps) a)" (is "?L \<longleftrightarrow> ?R")
    proof
      assume ?L
      then obtain a b where "p = CHR ''_'' \<or> lower_char p = lower_char c" "cs = a @ b" "like ps a"
        by blast
      then have "c # cs = (c # a) @ b \<and> like (p # ps) (c # a)"
        using False by simp
      then show ?R by blast
    next
      assume ?R
      then obtain a b where ab: "c # cs = a @ b" "like (p # ps) a" by blast
      then obtain a' where a': "a = c # a'" using False by (cases a) auto
      with ab False show ?L by auto
    qed
    finally show ?thesis .
  qed
qed

lemma like_wrapped:
  "like (''%'' @ v @ ''%'') s \<longleftrightarrow> (\<exists>pre mid post. s = pre @ mid @ post \<and> like v mid)"
proof -
  have "like (''%'' @ v @ ''%'') s \<longleftrightarrow> (\<exists>pre r. s = pre @ r \<and> like (v @ ''%'') r)"
    using like_percent_iff [of "v @ ''%''" s] by simp
  also have "\<dots> \<longleftrightarrow> (\<exists>pre r. s = pre @ r \<and> (\<exists>mid post. r = mid @ post \<and> like v mid))"
    using like_trailing_percent by simp
  also have "\<dots> \<longleftrightarrow> (\<exists>pre mid post. s = pre @ mid @ post \<and> like v mid)"
    by blast
  finally show ?thesis .
qed

section \<open>Properties of the filters\<close>


lemma where_clause_None: "where_clause None = []"
  by (simp add: where_clause_def)

lemma fetch_customers_None: "fetch_customers None d = order_by (rows d)"
  by (simp add: fetch_customers_def where_clause_def)

lemma where_clause_not_present:
  "\<not> present fs ''name'' \<Longrightarrow> \<not> present fs ''city'' \<Longrightarrow> \<not> present fs ''state'' \<Longrightarrow>
   where_clause (Some fs) = []"
  by (simp add: where_clause_def)

lemma map_of_remove_key:
  "map_of (filter (\<lambda>kv. fst kv \<noteq> k) fs) k' = (if k' = k then None else map_of fs k')"
  by (induction fs) auto

lemma present_remove_key:
  "map_of fs k = Some [] \<Longrightarrow> present (filter (\<lambda>kv. fst kv \<noteq> k) fs) k' = present fs k'"
  by (simp add: present_def map_of_remove_key)

lemma where_clause_remove_key:
  assumes "map_of fs k = Some []"
  shows "where_clause (Some (filter (\<lambda>kv. fst kv \<noteq> k) fs)) = where_clause (Some fs)"
proof -
  let ?gs = "filter (\<lambda>kv. fst kv \<noteq> k) fs"
  have p: "present ?gs k' = present fs k'" for k'
    using assms by (rule present_remove_key)
  have v: "present fs k' \<Longrightarrow> map_of ?gs k' = map_of fs k'" for k'
    using assms by (auto simp add: present_def map_of_remove_key)
  have e: "?gs = [] \<Longrightarrow> \<not> present fs k'" for k'
    using p [of k'] by (simp add: present_def)
  have n: "fs \<noteq> []" using assms by auto
  show ?thesis
  proof (cases "?gs = []")
    case True
    with e n show ?thesis by (simp add: where_clause_def)
  next
    case False
    with n p v show ?thesis by (simp add: where_clause_def)
  qed
qed

section \<open>Properties of trimming and upper case\<close>





lemma dropWhile_idem: "dropWhile P (dropWhile P xs) = dropWhile P xs"
  by (induction xs) auto





section \<open>Properties of the create path\<close>



lemma insert_customer_Inr:
  "insert_customer rec now d = Inr d' \<Longrightarrow>
     d' = \<lparr>rows = rows d @
                  [\<lparr>last_name = last_name rec, first_name = first_name rec,
                    street = street rec, city = city rec, state = state rec,
                    zip_code = zip_code rec, loan_amount = loan_amount rec,
                    estimated_value = estimated_value rec,
                    occupancy_type = occupancy_type rec,
                    cid = largest_rowid d + 1, created_at = now\<rparr>],
                seq = largest_rowid d + 1\<rparr> \<and> largest_rowid d < MAX_ROWID"
  by (auto simp add: insert_customer_def Let_def split: if_splits)




section \<open>Empty filters and wildcard filters\<close>


text \<open>
  Claim C10. A filters dictionary whose three values are empty strings lists the same
  sequence as no filters at all. More generally, a key whose value is the empty string
  can be removed from the dictionary without changing the listing, and a dictionary in
  which no filter is present lists the same sequence as no filters.
\<close>

theorem empty_filter_is_no_filter:
  "fetch_customers (Some [(''name'', ''''), (''city'', ''''), (''state'', '''')]) d
     = fetch_customers None d
   \<and> (\<forall>fs k. map_of fs k = Some [] \<longrightarrow>
        fetch_customers (Some fs) d
          = fetch_customers (Some (filter (\<lambda>kv. fst kv \<noteq> k) fs)) d)
   \<and> (\<forall>fs. \<not> present fs ''name'' \<and> \<not> present fs ''city'' \<and> \<not> present fs ''state'' \<longrightarrow>
        fetch_customers (Some fs) d = fetch_customers None d)"
  by (simp add: fetch_customers_def where_clause_remove_key where_clause_None
      where_clause_not_present present_def)

theorem empty_filter_is_no_filter_witness:
  "fetch_customers (Some [(''name'', ''''), (''state'', ''az'')]) pipeline
     = fetch_customers (Some [(''state'', ''az'')]) pipeline
   \<and> fetch_customers (Some [(''state'', ''az'')]) pipeline = [doe]"
proof -
  have h: "map_of [(''name'', ''''), (''state'', ''az'')] ''name'' = Some []" by simp
  have "\<forall>fs k. map_of fs k = Some [] \<longrightarrow>
        fetch_customers (Some fs) pipeline
          = fetch_customers (Some (filter (\<lambda>kv. fst kv \<noteq> k) fs)) pipeline"
    using empty_filter_is_no_filter [of pipeline] by blast
  with h have "fetch_customers (Some [(''name'', ''''), (''state'', ''az'')]) pipeline
          = fetch_customers (Some (filter (\<lambda>kv. fst kv \<noteq> ''name'')
               [(''name'', ''''), (''state'', ''az'')])) pipeline"
    by blast
  moreover have "filter (\<lambda>kv. fst kv \<noteq> ''name'') [(''name'', ''''), (''state'', ''az'')]
      = [(''state'', ''az'')]" by simp
  moreover have "fetch_customers (Some [(''state'', ''az'')]) pipeline = [doe]"
    by code_simp
  ultimately show ?thesis by simp
qed




section \<open>Properties of deletion\<close>







section \<open>Properties of the metrics\<close>









section \<open>Properties of row ids\<close>

lemma foldr_max_ge: "a \<le> foldr max xs (a :: int)"
  by (induction xs) auto

lemma foldr_max_mem: "x \<in> set xs \<Longrightarrow> x \<le> foldr max xs (a :: int)"
  by (induction xs) auto

lemma foldr_max_bound: "a \<le> b \<Longrightarrow> \<forall>x\<in>set xs. x \<le> b \<Longrightarrow> foldr max xs (a :: int) \<le> b"
  by (induction xs) auto

lemma largest_rowid_seq: "seq d \<le> largest_rowid d"
  by (simp add: largest_rowid_def foldr_max_ge)

lemma largest_rowid_cid: "r \<in> set (rows d) \<Longrightarrow> cid r \<le> largest_rowid d"
  by (simp add: largest_rowid_def foldr_max_mem)

lemma largest_rowid_seq_ok: "seq_ok d \<Longrightarrow> largest_rowid d = seq d"
proof -
  assume "seq_ok d"
  then have "\<forall>x\<in>set (map cid (rows d)). x \<le> seq d"
    by (auto simp add: seq_ok_def list_all_iff)
  then have "foldr max (map cid (rows d)) (seq d) \<le> seq d"
    by (intro foldr_max_bound) simp_all
  with largest_rowid_seq [of d] show ?thesis by (simp add: largest_rowid_def)
qed

lemma insert_customer_seq_ok:
  assumes "insert_customer rec now d = Inr d'"
  shows "seq_ok d'" "seq d' = largest_rowid d + 1" "cid (last (rows d')) = seq d'"
    "largest_rowid d' = seq d'"
proof -
  from insert_customer_Inr [OF assms] obtain new where
    d': "rows d' = rows d @ [new]" "cid new = largest_rowid d + 1" "seq d' = largest_rowid d + 1"
    by simp
  have "\<forall>r\<in>set (rows d). cid r \<le> seq d'"
    using largest_rowid_cid [of _ d] d'(3) by fastforce
  with d' show ok: "seq_ok d'" by (simp add: seq_ok_def list_all_iff)
  show "seq d' = largest_rowid d + 1" by (rule d'(3))
  show "cid (last (rows d')) = seq d'" using d' by simp
  show "largest_rowid d' = seq d'" using ok by (rule largest_rowid_seq_ok)
qed

lemma delete_customer_largest:
  assumes "delete_customer row_id d = Inr d'" "seq_ok d"
  shows "seq_ok d'" "seq d' = seq d"
proof -
  from assms(1) have d': "d' = d\<lparr>rows := filter (\<lambda>r. cid r \<noteq> row_id) (rows d)\<rparr>"
    by (simp add: delete_customer_def split: if_splits)
  then show "seq d' = seq d" by simp
  from assms(2) d' show "seq_ok d'" by (simp add: seq_ok_def list_all_iff)
qed

lemma run_above:
  "seq_ok d \<Longrightarrow> \<forall>i\<in>set (run ops d). seq d < i"
proof (induction ops d rule: run.induct)
  case (1 d)
  then show ?case by simp
next
  case (2 rec now ops d)
  show ?case
  proof (cases "insert_customer rec now d")
    case (Inl e)
    with 2 show ?thesis by simp
  next
    case (Inr d')
    note ok = insert_customer_seq_ok [OF Inr]
    have s: "seq d < seq d'" using ok(2) largest_rowid_seq [of d] by simp
    have "\<forall>i\<in>set (run ops d'). seq d' < i" using 2(2) [OF Inr ok(1)] .
    with s have "\<forall>i\<in>set (run ops d'). seq d < i" by fastforce
    with Inr s ok(3) show ?thesis by simp
  qed
next
  case (3 row_id ops d)
  show ?case
  proof (cases "delete_customer row_id d")
    case (Inl e)
    with 3 show ?thesis by simp
  next
    case (Inr d')
    note ok = delete_customer_largest [OF Inr "3.prems"]
    from 3(2) [OF Inr ok(1)] ok(2) Inr show ?thesis by simp
  qed
qed

lemma run_increasing: "sorted_wrt (<) (run ops d)"
proof (induction ops d rule: run.induct)
  case (1 d)
  then show ?case by simp
next
  case (2 rec now ops d)
  show ?case
  proof (cases "insert_customer rec now d")
    case (Inl e)
    with 2 show ?thesis by simp
  next
    case (Inr d')
    note ok = insert_customer_seq_ok [OF Inr]
    have "\<forall>i\<in>set (run ops d'). seq d' < i" using ok(1) by (rule run_above)
    moreover have "sorted_wrt (<) (run ops d')" using 2(2) [OF Inr] .
    ultimately show ?thesis using Inr ok(3) by simp
  qed
next
  case (3 row_id ops d)
  show ?case
  proof (cases "delete_customer row_id d")
    case (Inl e)
    with 3 show ?thesis by simp
  next
    case (Inr d')
    with 3 show ?thesis by simp
  qed
qed

text \<open>
  Claim C7. In every sequence of creations and deletions, run from any database, the ids
  given to created rows are strictly increasing: each one is greater than every id given
  before it, whether or not the row that had it was deleted in between. Run from a
  database that satisfies the invariant, such as the empty one that \<^verbatim>\<open>init_db\<close> makes,
  each one is also greater than the sequence counter and than the id of every row that
  the database held at the start.
\<close>

theorem ids_never_reused:
  "sorted_wrt (<) (run ops d)
   \<and> (seq_ok d \<longrightarrow> (\<forall>i\<in>set (run ops d). seq d < i \<and> (\<forall>r\<in>set (rows d). cid r < i)))
   \<and> seq_ok (init_db None)"
proof -
  have 1: "sorted_wrt (<) (run ops d)" by (rule run_increasing)
  have 2: "seq_ok d \<longrightarrow> (\<forall>i\<in>set (run ops d). seq d < i \<and> (\<forall>r\<in>set (rows d). cid r < i))"
  proof
    assume ok: "seq_ok d"
    then have a: "\<forall>i\<in>set (run ops d). seq d < i" by (rule run_above)
    from ok have "\<forall>r\<in>set (rows d). cid r \<le> seq d"
      by (simp add: seq_ok_def list_all_iff)
    with a show "\<forall>i\<in>set (run ops d). seq d < i \<and> (\<forall>r\<in>set (rows d). cid r < i)"
      by fastforce
  qed
  have 3: "seq_ok (init_db None)" by (simp add: seq_ok_def)
  from 1 2 3 show ?thesis by blast
qed

theorem ids_never_reused_witness:
  "run [Create jane_form ''2026-01-01 09:00:00'', Delete 1,
        Create jane_form ''2026-01-01 09:00:05'', Delete 2, Delete 2,
        Create jane_form ''2026-01-01 09:00:09''] (init_db None) = [1, 2, 3]
   \<and> run [Delete 2, Delete 1, Create jane_form ''2026-01-01 09:00:09''] pipeline = [3]
   \<and> seq pipeline < 3 \<and> cid doe < 3 \<and> cid roe < 3"
proof -
  let ?ops = "[Delete 2, Delete 1, Create jane_form ''2026-01-01 09:00:09'']"
  have ok: "seq_ok pipeline" by code_simp
  have r: "run ?ops pipeline = [3]" by code_simp
  have m: "doe \<in> set (rows pipeline)" "roe \<in> set (rows pipeline)"
    by (simp_all add: pipeline_def)
  from ids_never_reused [of ?ops pipeline] ok
  have "\<forall>i\<in>set (run ?ops pipeline). seq pipeline < i \<and> (\<forall>r\<in>set (rows pipeline). cid r < i)"
    by blast
  with r m have "seq pipeline < 3 \<and> cid doe < 3 \<and> cid roe < 3" by simp
  moreover have "run [Create jane_form ''2026-01-01 09:00:00'', Delete 1,
        Create jane_form ''2026-01-01 09:00:05'', Delete 2, Delete 2,
        Create jane_form ''2026-01-01 09:00:09''] (init_db None) = [1, 2, 3]"
    by code_simp
  ultimately show ?thesis using r by blast
qed

section \<open>Properties of the listing\<close>















section \<open>Filters as the specification words them\<close>






section \<open>Properties of the second implementation and of the delete button\<close>


lemma prepare_UPDATE_SQL: "prepare UPDATE_SQL = Inl (SyntaxError ''WHERE'')"
  by code_simp

lemma prepare_DELETE_SQL: "prepare DELETE_SQL = Inr (Delete_From ''users'' (Some ''id''))"
  by code_simp

lemma prepare_update_without_comma:
  "prepare ''UPDATE users SET name = ?, age = ? WHERE id = ?''
     = Inr (Update ''users'' [''name'', ''age''] (Some ''id''))"
  by code_simp

lemma delete_customer_zero:
  "delete_customer 0 d = Inr (d\<lparr>rows := filter (\<lambda>r. cid r \<noteq> 0) (rows d)\<rparr>)"
  by (simp add: delete_customer_def MIN_ROWID_def MAX_ROWID_def)

text \<open>
  Claim C8. For every input \<^verbatim>\<open>update_user\<close> ends in a syntax error at \<^verbatim>\<open>WHERE\<close> and leaves
  the table as it was; the same statement without the comma before \<^verbatim>\<open>WHERE\<close> compiles.
  \<^verbatim>\<open>delete_user\<close> with an integer id ends in an error, because the integer is no sequence
  of parameters, and leaves the table as it was; with the id in a tuple the row is
  deleted. The delete button of the dashboard deletes the rows with id 0 whatever row id
  is selected, and reports the selected id as deleted: in the example table it reports
  row 1 as deleted and the table is unchanged.
\<close>

theorem second_implementation_defects:
  "update_user uid' name age us = (Some (SyntaxError ''WHERE''), us)
   \<and> prepare ''UPDATE users SET name = ?, age = ? WHERE id = ?''
       = Inr (Update ''users'' [''name'', ''age''] (Some ''id''))
   \<and> delete_user (PInt n) us = (Some UnsupportedParameters, us)
   \<and> delete_user (PTuple [PInt 5]) [ann] = (None, [])
   \<and> delete_selected_row did d
       = (Deleted did, d\<lparr>rows := filter (\<lambda>r. cid r \<noteq> 0) (rows d)\<rparr>)
   \<and> snd (delete_selected_row did d) = snd (delete_selected_row did2 d)
   \<and> delete_selected_row 1 pipeline = (Deleted 1, pipeline)"
proof -
  have 1: "update_user uid' name age us = (Some (SyntaxError ''WHERE''), us)"
    by (simp add: update_user_def execute_def prepare_UPDATE_SQL)
  have 2: "delete_user (PInt n) us = (Some UnsupportedParameters, us)"
    by (simp add: delete_user_def execute_def prepare_DELETE_SQL)
  have 3: "delete_user (PTuple [PInt 5]) [ann] = (None, [])"
    by code_simp
  have 4: "delete_selected_row did d
       = (Deleted did, d\<lparr>rows := filter (\<lambda>r. cid r \<noteq> 0) (rows d)\<rparr>)" for did
    by (simp add: delete_selected_row_def delete_customer_zero)
  have 5: "snd (delete_selected_row did d) = snd (delete_selected_row did2 d)"
    by (simp add: 4)
  have 6: "delete_selected_row 1 pipeline = (Deleted 1, pipeline)"
    by code_simp
  from 1 prepare_update_without_comma 2 3 4 5 6 show ?thesis by (intro conjI)
qed

section \<open>The zip code pattern\<close>

lemma rx_step_times_digit:
  "rx_step (times n digit) (k, s) =
     (if n \<le> length s \<and> list_all is_digit (take n s) then [(k + n, drop n s)] else [])"
proof (induction n arbitrary: k s)
  case 0
  then show ?case by simp
next
  case (Suc n)
  show ?case
  proof (cases s)
    case Nil
    then show ?thesis by (simp add: digit_def)
  next
    case (Cons c cs)
    then show ?thesis using Suc [of "Suc k" cs] by (auto simp add: digit_def is_digit_def)
  qed
qed

lemma rx_step_dash:
  "rx_step (Chars [(CHR ''-'', CHR ''-'')]) (k, s) =
     (if s \<noteq> [] \<and> hd s = CHR ''-'' then [(Suc k, tl s)] else [])"
  by (cases s) auto

lemma rx_step_Eol_nonempty: "(rx_step Eol (k, s) \<noteq> []) = (s = [] \<or> s = [CHR 0x0A])"
  by simp

lemma ZIP_RE_unfold:
  "re_match ZIP_RE s \<longleftrightarrow>
     5 \<le> length s \<and> list_all is_digit (take 5 s) \<and>
     ((drop 5 s = [] \<or> drop 5 s = [CHR 0x0A]) \<or>
      (drop 5 s \<noteq> [] \<and> hd (drop 5 s) = CHR ''-'' \<and> 4 \<le> length (tl (drop 5 s)) \<and>
       list_all is_digit (take 4 (tl (drop 5 s))) \<and>
       (drop 4 (tl (drop 5 s)) = [] \<or> drop 4 (tl (drop 5 s)) = [CHR 0x0A])))"
  by (auto simp add: re_match_def ZIP_RE_def rx_step_times_digit rx_step_dash simp del: rx_step.simps(3,7)
      simp add: rx_step.simps(7))


lemma well_formed_zip_append:
  "well_formed_zip z \<longleftrightarrow>
     (length z = 5 \<and> list_all is_digit z) \<or>
     (\<exists>a b. z = a @ CHR ''-'' # b \<and> length a = 5 \<and> length b = 4 \<and>
            list_all is_digit a \<and> list_all is_digit b)"
proof
  assume "well_formed_zip z"
  then consider "length z = 5 \<and> list_all is_digit z"
    | "length z = 10" "list_all is_digit (take 5 z)" "z ! 5 = CHR ''-''"
      "list_all is_digit (drop 6 z)"
    by (auto simp add: well_formed_zip_def)
  then show "(length z = 5 \<and> list_all is_digit z) \<or>
     (\<exists>a b. z = a @ CHR ''-'' # b \<and> length a = 5 \<and> length b = 4 \<and>
            list_all is_digit a \<and> list_all is_digit b)"
  proof cases
    case 1
    then show ?thesis by simp
  next
    case 2
    have "z = take 5 z @ drop 5 z" by simp
    also have "drop 5 z = z ! 5 # drop 6 z"
      using 2(1) Cons_nth_drop_Suc [of 5 z] by simp
    finally have "z = take 5 z @ CHR ''-'' # drop 6 z" using 2(3) by simp
    moreover have "length (take 5 z) = 5" "length (drop 6 z) = 4" using 2(1) by simp_all
    ultimately show ?thesis using 2(2,4) by blast
  qed
next
  assume "(length z = 5 \<and> list_all is_digit z) \<or>
     (\<exists>a b. z = a @ CHR ''-'' # b \<and> length a = 5 \<and> length b = 4 \<and>
            list_all is_digit a \<and> list_all is_digit b)"
  then show "well_formed_zip z"
    by (auto simp add: well_formed_zip_def nth_append)
qed

lemma ZIP_RE_append:
  "re_match ZIP_RE s \<longleftrightarrow>
     (\<exists>a r. s = a @ r \<and> length a = 5 \<and> list_all is_digit a \<and>
        (r = [] \<or> r = [CHR 0x0A] \<or>
         (\<exists>b e. r = CHR ''-'' # b @ e \<and> length b = 4 \<and> list_all is_digit b \<and>
                (e = [] \<or> e = [CHR 0x0A]))))"
  (is "?L \<longleftrightarrow> ?R")
proof
  assume ?L
  then have h: "5 \<le> length s" "list_all is_digit (take 5 s)"
     "(drop 5 s = [] \<or> drop 5 s = [CHR 0x0A]) \<or>
      (drop 5 s \<noteq> [] \<and> hd (drop 5 s) = CHR ''-'' \<and> 4 \<le> length (tl (drop 5 s)) \<and>
       list_all is_digit (take 4 (tl (drop 5 s))) \<and>
       (drop 4 (tl (drop 5 s)) = [] \<or> drop 4 (tl (drop 5 s)) = [CHR 0x0A]))"
    unfolding ZIP_RE_unfold by blast+
  let ?a = "take 5 s" and ?r = "drop 5 s"
  have a: "s = ?a @ ?r" "length ?a = 5" using h(1) by simp_all
  from h(3) have "?r = [] \<or> ?r = [CHR 0x0A] \<or>
         (\<exists>b e. ?r = CHR ''-'' # b @ e \<and> length b = 4 \<and> list_all is_digit b \<and>
                (e = [] \<or> e = [CHR 0x0A]))"
  proof (elim disjE conjE)
    assume t: "drop 5 s \<noteq> []" "hd (drop 5 s) = CHR ''-''" "4 \<le> length (tl (drop 5 s))"
      "list_all is_digit (take 4 (tl (drop 5 s)))"
      "drop 4 (tl (drop 5 s)) = []"
    let ?t = "tl ?r"
    have "?r = CHR ''-'' # take 4 ?t @ drop 4 ?t" using t(1,2) by (cases ?r) auto
    moreover have "length (take 4 ?t) = 4" using t(3) by simp
    ultimately show ?thesis using t(4,5) by blast
  next
    assume t: "drop 5 s \<noteq> []" "hd (drop 5 s) = CHR ''-''" "4 \<le> length (tl (drop 5 s))"
      "list_all is_digit (take 4 (tl (drop 5 s)))"
      "drop 4 (tl (drop 5 s)) = [CHR 0x0A]"
    let ?t = "tl ?r"
    have "?r = CHR ''-'' # take 4 ?t @ drop 4 ?t" using t(1,2) by (cases ?r) auto
    moreover have "length (take 4 ?t) = 4" using t(3) by simp
    ultimately show ?thesis using t(4,5) by blast
  qed simp_all
  with a h(2) show ?R by blast
next
  assume ?R
  then obtain a r where ar: "s = a @ r" "length a = 5" "list_all is_digit a"
    "r = [] \<or> r = [CHR 0x0A] \<or>
         (\<exists>b e. r = CHR ''-'' # b @ e \<and> length b = 4 \<and> list_all is_digit b \<and>
                (e = [] \<or> e = [CHR 0x0A]))"
    by blast
  then have "take 5 s = a" "drop 5 s = r" "5 \<le> length s" by simp_all
  with ar(3,4) show ?L unfolding ZIP_RE_unfold by auto
qed

lemma ZIP_RE_iff:
  "re_match ZIP_RE s \<longleftrightarrow>
     well_formed_zip s \<or> (\<exists>z. s = z @ [CHR 0x0A] \<and> well_formed_zip z)"
  (is "?L \<longleftrightarrow> ?R")
proof
  assume ?L
  then obtain a r where ar: "s = a @ r" "length a = 5" "list_all is_digit a"
    and r: "r = [] \<or> r = [CHR 0x0A] \<or>
         (\<exists>b e. r = CHR ''-'' # b @ e \<and> length b = 4 \<and> list_all is_digit b \<and>
                (e = [] \<or> e = [CHR 0x0A]))"
    unfolding ZIP_RE_append by blast
  have wa: "well_formed_zip a" using ar(2,3) by (simp add: well_formed_zip_append)
  from r consider "r = []" | "r = [CHR 0x0A]"
    | b e where "r = CHR ''-'' # b @ e" "length b = 4" "list_all is_digit b"
        "e = [] \<or> e = [CHR 0x0A]"
    by blast
  then show ?R
  proof cases
    case 1
    with ar(1) wa show ?thesis by simp
  next
    case 2
    with ar(1) wa show ?thesis by blast
  next
    case 3
    have wz: "well_formed_zip (a @ CHR ''-'' # b)"
      unfolding well_formed_zip_append using ar(2,3) 3(2,3) by blast
    from 3(4) show ?thesis
    proof
      assume "e = []"
      with ar(1) 3(1) wz show ?thesis by simp
    next
      assume "e = [CHR 0x0A]"
      with ar(1) 3(1) have "s = (a @ CHR ''-'' # b) @ [CHR 0x0A]" by simp
      with wz show ?thesis by blast
    qed
  qed
next
  have wf: "\<exists>a r. z @ e = a @ r \<and> length a = 5 \<and> list_all is_digit a \<and>
        (r = [] \<or> r = [CHR 0x0A] \<or>
         (\<exists>b e. r = CHR ''-'' # b @ e \<and> length b = 4 \<and> list_all is_digit b \<and>
                (e = [] \<or> e = [CHR 0x0A])))"
    if z: "well_formed_zip z" and e: "e = [] \<or> e = [CHR 0x0A]" for z e
  proof -
    from z consider "length z = 5" "list_all is_digit z"
      | a b where "z = a @ CHR ''-'' # b" "length a = 5" "length b = 4"
            "list_all is_digit a" "list_all is_digit b"
      unfolding well_formed_zip_append by blast
    then show ?thesis
    proof cases
      case 1
      have "z @ e = z @ e" by simp
      with 1 e show ?thesis by blast
    next
      case 2
      have "z @ e = a @ (CHR ''-'' # b @ e)" using 2(1) by simp
      with 2 e show ?thesis by blast
    qed
  qed
  assume ?R
  then show ?L
  proof
    assume "well_formed_zip s"
    from wf [OF this, of "[]"] show ?L unfolding ZIP_RE_append by simp
  next
    assume "\<exists>z. s = z @ [CHR 0x0A] \<and> well_formed_zip z"
    then obtain z where "s = z @ [CHR 0x0A]" "well_formed_zip z" by blast
    with wf [of z "[CHR 0x0A]"] show ?L unfolding ZIP_RE_append by simp
  qed
qed

lemma ZIP_RE_nine_digits: "length s = 9 \<Longrightarrow> list_all is_digit s \<Longrightarrow> \<not> re_match ZIP_RE s"
proof
  assume s: "length s = 9" "list_all is_digit s" and "re_match ZIP_RE s"
  then have "drop 5 s \<noteq> [] \<and> drop 5 s \<noteq> [CHR 0x0A] \<longrightarrow> hd (drop 5 s) = CHR ''-''"
    unfolding ZIP_RE_unfold by blast
  moreover have "length (drop 5 s) = 4" using s(1) by simp
  ultimately have "hd (drop 5 s) = CHR ''-''" by (cases "drop 5 s") auto
  moreover have "hd (drop 5 s) = s ! 5" using s(1) by (simp add: hd_drop_conv_nth)
  moreover have "is_digit (s ! 5)" using s by (simp add: list_all_length)
  ultimately show False by (simp add: is_digit_def)
qed

section \<open>Consequences for the validator and the metrics\<close>


lemma validate_inputs_accepts:
  assumes "length (state d) = 2" "list_all (in_ranges [(CHR ''A'', CHR ''Z''), (CHR ''a'', CHR ''z'')]) (state d)"
    "well_formed_zip (zip_code d)" "0 < loan_amount d" "0 < estimated_value d"
  shows "validate_inputs d = None"
proof -
  from assms(1) obtain a b where ab: "state d = [a, b]"
    by (cases "state d"; cases "tl (state d)") auto
  with assms(2) have "re_match STATE_RE (state d)"
    unfolding STATE_RE_iff by simp
  moreover have "re_match ZIP_RE (zip_code d)"
    using assms(3) unfolding ZIP_RE_iff by simp
  ultimately show ?thesis using assms(4,5) by (simp add: validate_inputs_def)
qed

lemma validate_inputs_rejects_nine_digits:
  assumes "re_match STATE_RE (state d)" "length (zip_code d) = 9" "list_all is_digit (zip_code d)"
  shows "validate_inputs d = Some MSG_ZIP"
  using assms ZIP_RE_nine_digits [of "zip_code d"] by (simp add: validate_inputs_def)

text \<open>
  \<^verbatim>\<open>$\<close> also holds before a newline that ends the text, so a state of two letters and
  a newline passes the validator. The form handler trims the state first.
\<close>

lemma validate_inputs_trailing_newline:
  "validate_inputs \<lparr>last_name = ''Doe'', first_name = ''Jane'', street = ''123 Main St'',
      city = ''Phoenix'', state = [CHR ''A'', CHR ''Z'', CHR 0x0A], zip_code = ''85212'',
      loan_amount = 200000, estimated_value = 250000,
      occupancy_type = ''Investment''\<rparr> = None"
  by (simp add: validate_inputs_def re_match_def STATE_RE_def ZIP_RE_def letter_def digit_def
      eval_nat_numeral)

lemma top_metrics_count_total:
  "total_customers (top_metrics d) = length (rows d)
   \<and> total_loan (top_metrics d) = sum_list (map loan_amount (rows d))"
  by (simp add: top_metrics_def summarize_def fetch_customers_None length_order_by sum_order_by)

end
